theory Spec2Isabelle
  imports Complex_Main "HOL-Library.Signed_Division"
begin

section \<open>Go integers\<close>

text \<open>
  The source computes with Go's \<open>int\<close> and \<open>int64\<close>. Both are taken as 64-bit two's
  complement (Go's \<open>int\<close> on a 64-bit platform), so the conversions \<open>int(...)\<close> and
  \<open>int64(...)\<close> between them are the identity. Values are modelled as \<open>int\<close>; where
  the source's arithmetic could leave the 64-bit range (the increment of
  \<open>concurrency\<close>, the product \<open>asyncChunkSize * i\<close>) the wrap-around is written
  out with \<open>wrap_int\<close>. Go's \<open>/\<close> and \<open>%\<close> truncate towards zero: they are
  \<open>sdiv\<close> and \<open>smod\<close>.
\<close>

definition wrap_int :: "int \<Rightarrow> int" where
  "wrap_int x = (x + 2 ^ 63) mod 2 ^ 64 - 2 ^ 63"

text \<open>\<open>const asyncChunkSize = 1024 * 1024\<close>\<close>

definition asyncChunkSize :: int where
  "asyncChunkSize = 1024 * 1024"

section \<open>Errors, panics and the file handle\<close>

text \<open>
  Error values the source tells apart: \<open>io.EOF\<close> against everything else
  (\<open>_err != nil && _err != io.EOF\<close>).
\<close>

datatype error = EOF | ErrClosed | PathError string

text \<open>Run-time panics of the statements the source executes.\<close>

datatype panic = MakeSliceLenOutOfRange | IndexOutOfRange | NegativeWaitGroupCounter

text \<open>
  The \<open>*os.File\<close> the caller passes in. \<open>fsize\<close> is what \<open>Stat().Size()\<close> reports,
  \<open>cursor\<close> the handle's shared read position (moved by \<open>Read\<close> and \<open>Seek\<close>, which
  the parallel reader never calls), \<open>is_closed\<close> whether \<open>Close\<close> has been called,
  \<open>stat_fails\<close> whether the size query fails, and \<open>faulty off\<close> whether a positioned
  read starting at byte \<open>off\<close> fails with an I/O error.
\<close>

record os_file =
  fsize :: int
  cursor :: int
  is_closed :: bool
  stat_fails :: bool
  faulty :: "int \<Rightarrow> bool"

text \<open>\<open>file.Stat()\<close> followed by \<open>fileStats.Size()\<close>: the error, or the size.\<close>

definition Stat :: "os_file \<Rightarrow> error + int" where
  "Stat f =
     (if is_closed f then Inl ErrClosed
      else if stat_fails f then Inl (PathError ''stat'')
      else Inr (fsize f))"

text \<open>
  \<open>file.ReadAt(b, off)\<close> with \<open>len(b) = len\<close>, as the standard library documents it:
  it reads from byte \<open>off\<close> without touching the handle's cursor, returns the number
  of bytes read and a non-nil error whenever fewer than \<open>len\<close> bytes were read, and
  that error is \<open>io.EOF\<close> at the end of the file.
\<close>

definition ReadAt :: "os_file \<Rightarrow> int \<Rightarrow> int \<Rightarrow> int \<times> error option" where
  "ReadAt f len off =
     (if is_closed f then (0, Some ErrClosed)
      else if off < 0 then (0, Some (PathError ''readat''))
      else if faulty f off then (0, Some (PathError ''read''))
      else let n = min len (max 0 (fsize f - off))
           in (n, if n < len then Some EOF else None))"

section \<open>The chunk plan\<close>

text \<open>
  Lines 66-73 of \<open>asyncReadFile\<close>, with the chunk size as the parameter \<open>cs\<close> (the
  source fixes it to the constant \<open>asyncChunkSize\<close>):
  \<^verbatim>\<open>
  concurrency := filesize / asyncChunkSize
  if filesize%asyncChunkSize != 0 {
      concurrency++
  }
  \<close>
\<close>

definition num_chunks :: "int \<Rightarrow> int \<Rightarrow> int" where
  "num_chunks cs filesize =
     (let concurrency = filesize sdiv cs
      in if filesize smod cs \<noteq> 0 then wrap_int (concurrency + 1) else concurrency)"

text \<open>\<open>make([]int64, n)\<close>: a zeroed slice, or a panic when \<open>n\<close> is negative.\<close>

definition make_int64 :: "int \<Rightarrow> panic + int list" where
  "make_int64 n = (if n < 0 then Inl MakeSliceLenOutOfRange else Inr (replicate (nat n) 0))"

text \<open>
  The loop of lines 83-85, started at \<open>i\<close>:
  \<^verbatim>\<open>
  for i := 0; i < concurrency; i++ {
      chunkOffset[i] = int64(asyncChunkSize * i)
  }
  \<close>
  An index outside the slice panics. The counter stays below \<open>concurrency\<close>, itself
  an \<open>int\<close>, so \<open>i++\<close> cannot wrap.
\<close>

function fill_offsets :: "int \<Rightarrow> int \<Rightarrow> int \<Rightarrow> int list \<Rightarrow> panic + int list" where
  "fill_offsets cs concurrency i chunkOffset =
     (if i < concurrency then
        (if 0 \<le> i \<and> i < int (length chunkOffset)
         then fill_offsets cs concurrency (i + 1) (chunkOffset[nat i := wrap_int (cs * i)])
         else Inl IndexOutOfRange)
      else Inr chunkOffset)"
  by pat_completeness auto
termination
  by (relation "measure (\<lambda>(cs, concurrency, i, chunkOffset). nat (concurrency - i))") auto

declare fill_offsets.simps [simp del]

text \<open>Lines 66-85 together: the slice \<open>chunkOffset\<close> the workers are given.\<close>

definition chunk_plan :: "int \<Rightarrow> int \<Rightarrow> panic + int list" where
  "chunk_plan cs filesize =
     (let concurrency = num_chunks cs filesize
      in case make_int64 concurrency of
           Inl p \<Rightarrow> Inl p
         | Inr chunkOffset \<Rightarrow> fill_offsets cs concurrency 0 chunkOffset)"

section \<open>The shared objects and the chunk worker\<close>

text \<open>
  What the orchestrator and its goroutines share besides the file: the buffered channel
  \<open>gochannel\<close> (its queued elements, oldest first), the counter of the package-level
  \<open>sync.WaitGroup\<close> \<open>wg\<close>, and the lines written by \<open>log.Println\<close>.
\<close>

record shared =
  gochannel :: "int list"
  wg :: int
  logs :: "error list"

text \<open>\<open>log.Println(e)\<close>\<close>

definition Println :: "error \<Rightarrow> 'a shared_scheme \<Rightarrow> 'a shared_scheme" where
  "Println e s = s\<lparr>logs := logs s @ [e]\<rparr>"

text \<open>\<open><-gochannel\<close>: takes the oldest element; \<open>None\<close> while the channel is empty.\<close>

definition recv :: "'a shared_scheme \<Rightarrow> 'a shared_scheme option" where
  "recv s = (case gochannel s of [] \<Rightarrow> None | x # xs \<Rightarrow> Some (s\<lparr>gochannel := xs\<rparr>))"

text \<open>
  \<open>wg.Add(delta)\<close>; \<open>wg.Done()\<close> is \<open>wg.Add(-1)\<close>. A counter that would become
  negative panics.
\<close>

definition wg_Add :: "int \<Rightarrow> 'a shared_scheme \<Rightarrow> panic + 'a shared_scheme" where
  "wg_Add delta s =
     (if wg s + delta < 0 then Inl NegativeWaitGroupCounter else Inr (s\<lparr>wg := wg s + delta\<rparr>))"

text \<open>
  The arguments of the call at line 113, \<open>file.ReadAt(make([]byte, asyncChunkSize),
  chunkOffset[i])\<close>: the length of the buffer and the offset.
\<close>

definition read_args :: "int list \<Rightarrow> int \<Rightarrow> panic + (int \<times> int)" where
  "read_args chunkOffset i =
     (if 0 \<le> i \<and> i < int (length chunkOffset)
      then Inr (asyncChunkSize, chunkOffset ! nat i)
      else Inl IndexOutOfRange)"

definition read_result :: "os_file \<Rightarrow> int list \<Rightarrow> int \<Rightarrow> panic + (int \<times> error option)" where
  "read_result file chunkOffset i =
     (case read_args chunkOffset i of
        Inl p \<Rightarrow> Inl p
      | Inr (len, off) \<Rightarrow> Inr (ReadAt file len off))"

text \<open>How a call that runs alone ends.\<close>

datatype 'a outcome = Returns 'a | Blocks | Panics panic

text \<open>
  \<open>readChunk(gochannel, file, chunkOffset, i)\<close>, lines 111-122, run from its first
  statement to its last on the shared objects \<open>s\<close>:
  \<^verbatim>\<open>
  _, _err := file.ReadAt(make([]byte, asyncChunkSize), chunkOffset[i])
  if _err != nil && _err != io.EOF {
      log.Println(_err)
      return
  }
  <-gochannel
  wg.Done()
  \<close>
\<close>

definition readChunk ::
  "os_file \<Rightarrow> int list \<Rightarrow> int \<Rightarrow> 'a shared_scheme \<Rightarrow> 'a shared_scheme outcome" where
  "readChunk file chunkOffset i s =
     (case read_result file chunkOffset i of
        Inl p \<Rightarrow> Panics p
      | Inr (n, err) \<Rightarrow>
          if err \<noteq> None \<and> err \<noteq> Some EOF then Returns (Println (the err) s)
          else (case recv s of
                  None \<Rightarrow> Blocks
                | Some s1 \<Rightarrow>
                    (case wg_Add (- 1) s1 of
                       Inl p \<Rightarrow> Panics p
                     | Inr s2 \<Rightarrow> Returns s2)))"

section \<open>The orchestrator and its goroutines, interleaved\<close>

text \<open>
  Where the orchestrator \<open>asyncReadFile\<close> stands: before \<open>file.Stat()\<close> (line 60); in
  iteration \<open>i\<close> of the dispatch loop before \<open>wg.Add(1)\<close> (line 103), before the send
  \<open>gochannel <- 1\<close> (line 104), before \<open>go readChunk(...)\<close> (line 105); before
  \<open>wg.Wait()\<close> (line 108); returned.
\<close>

datatype opc = AtStat | AtAdd nat | AtSend nat | AtGo nat | AtWait | Returned

text \<open>
  Where a goroutine running \<open>readChunk\<close> stands: before the read (line 113), before
  the receive (line 120), before \<open>wg.Done()\<close> (line 121), returned at line 117, or
  returned at the end of the function.
\<close>

datatype wpc = AtReadAt | AtRecv | AtDone | Aborted | Finished

text \<open>
  The whole state: the shared objects, the file handle, the orchestrator's locals and
  position, one entry per spawned goroutine (its argument \<open>i\<close> and its position, in
  spawn order), and the panic that killed the process, if any.
\<close>

record state = shared +
  handle :: os_file
  concurrency :: int
  chunkOffset :: "int list"
  opc :: opc
  workers :: "(int \<times> wpc) list"
  fatal :: "panic option"

definition init :: "os_file \<Rightarrow> state" where
  "init f = \<lparr>gochannel = [], wg = 0, logs = [], handle = f, concurrency = 0,
             chunkOffset = [], opc = AtStat, workers = [], fatal = None\<rparr>"

text \<open>
  One step of \<open>asyncReadFile\<close>; \<open>ncpu\<close> is \<open>runtime.NumCPU()\<close>, the capacity of the
  channel. \<open>None\<close>: the orchestrator cannot move (the send waits for room in the
  channel, \<open>wg.Wait()\<close> waits for the counter to be zero, or it has returned).
\<close>

definition orch_step :: "nat \<Rightarrow> state \<Rightarrow> state option" where
  "orch_step ncpu s =
     (case opc s of
        AtStat \<Rightarrow>
          (case Stat (handle s) of
             Inl e \<Rightarrow> Some ((Println e s)\<lparr>opc := Returned\<rparr>)
           | Inr filesize \<Rightarrow>
               (case chunk_plan asyncChunkSize filesize of
                  Inl p \<Rightarrow> Some (s\<lparr>fatal := Some p\<rparr>)
                | Inr offs \<Rightarrow>
                    Some (s\<lparr>gochannel := [],
                            concurrency := num_chunks asyncChunkSize filesize,
                            chunkOffset := offs, opc := AtAdd 0\<rparr>)))
      | AtAdd i \<Rightarrow>
          if int i < concurrency s then
            (case wg_Add 1 s of
               Inl p \<Rightarrow> Some (s\<lparr>fatal := Some p\<rparr>)
             | Inr s' \<Rightarrow> Some (s'\<lparr>opc := AtSend i\<rparr>))
          else Some (s\<lparr>opc := AtWait\<rparr>)
      | AtSend i \<Rightarrow>
          if length (gochannel s) < ncpu
          then Some (s\<lparr>gochannel := gochannel s @ [1], opc := AtGo i\<rparr>)
          else None
      | AtGo i \<Rightarrow> Some (s\<lparr>workers := workers s @ [(int i, AtReadAt)], opc := AtAdd (i + 1)\<rparr>)
      | AtWait \<Rightarrow> if wg s = 0 then Some (s\<lparr>opc := Returned\<rparr>) else None
      | Returned \<Rightarrow> None)"

text \<open>
  One step of the \<open>k\<close>-th spawned goroutine: the statements of \<open>readChunk\<close>, one at
  a time. \<open>None\<close>: it cannot move (not spawned yet, waiting at the receive, or returned).
\<close>

definition worker_step :: "nat \<Rightarrow> state \<Rightarrow> state option" where
  "worker_step k s =
     (if k < length (workers s) then
        (case workers s ! k of
           (i, AtReadAt) \<Rightarrow>
             (case read_result (handle s) (chunkOffset s) i of
                Inl p \<Rightarrow> Some (s\<lparr>fatal := Some p\<rparr>)
              | Inr (n, err) \<Rightarrow>
                  if err \<noteq> None \<and> err \<noteq> Some EOF
                  then Some ((Println (the err) s)\<lparr>workers := (workers s)[k := (i, Aborted)]\<rparr>)
                  else Some (s\<lparr>workers := (workers s)[k := (i, AtRecv)]\<rparr>))
         | (i, AtRecv) \<Rightarrow>
             (case recv s of
                None \<Rightarrow> None
              | Some s' \<Rightarrow> Some (s'\<lparr>workers := (workers s)[k := (i, AtDone)]\<rparr>))
         | (i, AtDone) \<Rightarrow>
             (case wg_Add (- 1) s of
                Inl p \<Rightarrow> Some (s\<lparr>fatal := Some p\<rparr>)
              | Inr s' \<Rightarrow> Some (s'\<lparr>workers := (workers s)[k := (i, Finished)]\<rparr>))
         | (i, Aborted) \<Rightarrow> None
         | (i, Finished) \<Rightarrow> None)
      else None)"

text \<open>
  The scheduler picks who moves next. After a panic nobody moves: the process is gone.
\<close>

datatype actor = Orchestrator | Worker nat

definition step :: "nat \<Rightarrow> actor \<Rightarrow> state \<Rightarrow> state option" where
  "step ncpu a s =
     (if fatal s \<noteq> None then None
      else case a of Orchestrator \<Rightarrow> orch_step ncpu s | Worker k \<Rightarrow> worker_step k s)"

text \<open>
  A schedule is run from left to right; \<open>None\<close> when it asks for a move that cannot
  be made. The states of a parallel read of \<open>f\<close> on \<open>ncpu\<close> processors are the
  \<open>s\<close> with \<open>run ncpu sched (init f) = Some s\<close> for some schedule.
\<close>

fun run :: "nat \<Rightarrow> actor list \<Rightarrow> state \<Rightarrow> state option" where
  "run ncpu [] s = Some s"
| "run ncpu (a # sched) s =
     (case step ncpu a s of None \<Rightarrow> None | Some s' \<Rightarrow> run ncpu sched s')"

text \<open>Counting goroutines by position.\<close>

definition count_pc :: "(wpc \<Rightarrow> bool) \<Rightarrow> (int \<times> wpc) list \<Rightarrow> nat" where
  "count_pc P ws = length (filter (\<lambda>w. P (snd w)) ws)"

text \<open>
  Goroutines that are running \<open>readChunk\<close>: spawned, and not yet returned (neither at
  line 117 nor at the end of the function).
\<close>

definition running :: "state \<Rightarrow> nat" where
  "running s = count_pc (\<lambda>p. p \<noteq> Aborted \<and> p \<noteq> Finished) (workers s)"

text \<open>
  Goroutines that are running and have not yet given their slot back: before the read
  of line 113 or before the receive of line 120.
\<close>

definition admitted :: "state \<Rightarrow> nat" where
  "admitted s = count_pc (\<lambda>p. p = AtReadAt \<or> p = AtRecv) (workers s)"

text \<open>
  Positions at which a goroutine's element is still in the channel: it has not executed
  the receive of line 120 (and after the return of line 117 it never will).
\<close>

definition has_slot :: "wpc \<Rightarrow> bool" where
  "has_slot p \<longleftrightarrow> p = AtReadAt \<or> p = AtRecv \<or> p = Aborted"

definition holding :: "state \<Rightarrow> nat" where
  "holding s = count_pc has_slot (workers s)"

text \<open>Goroutines that have not called \<open>wg.Done()\<close>.\<close>

definition unsignalled :: "state \<Rightarrow> nat" where
  "unsignalled s = count_pc (\<lambda>p. p \<noteq> Finished) (workers s)"

section \<open>The invariant of a parallel read\<close>

text \<open>
  The read of goroutine \<open>i\<close> did not take the branch of line 115: it returned no error,
  or \<open>io.EOF\<close>.
\<close>

definition read_ok :: "os_file \<Rightarrow> int list \<Rightarrow> int \<Rightarrow> bool" where
  "read_ok f offs i =
     (case read_result f offs i of
        Inl p \<Rightarrow> False
      | Inr (n, err) \<Rightarrow> \<not> (err \<noteq> None \<and> err \<noteq> Some EOF))"

text \<open>Positions after line 115 on the path that did not return.\<close>

definition past_read :: "wpc \<Rightarrow> bool" where
  "past_read p \<longleftrightarrow> p = AtRecv \<or> p = AtDone \<or> p = Finished"

text \<open>
  What the orchestrator has already put into the channel, and added to the counter,
  for the goroutine it is about to spawn.
\<close>

definition sent :: "opc \<Rightarrow> nat" where
  "sent c = (case c of AtGo i \<Rightarrow> 1 | _ \<Rightarrow> 0)"

definition added :: "opc \<Rightarrow> int" where
  "added c = (case c of AtSend i \<Rightarrow> 1 | AtGo i \<Rightarrow> 1 | _ \<Rightarrow> 0)"

text \<open>
  The channel holds one element per goroutine that has not taken its element out, never
  more than its capacity; the counter counts the goroutines that have not called
  \<open>wg.Done()\<close>.
\<close>

definition inv_sync :: "nat \<Rightarrow> state \<Rightarrow> bool" where
  "inv_sync ncpu s \<longleftrightarrow>
     length (gochannel s) = holding s + sent (opc s) \<and>
     length (gochannel s) \<le> ncpu \<and>
     wg s = int (unsignalled s) + added (opc s)"

text \<open>The dispatch loop has spawned goroutines \<open>0, \<dots>, i - 1\<close>.\<close>

definition inv_loop :: "state \<Rightarrow> bool" where
  "inv_loop s \<longleftrightarrow>
     (case opc s of
        AtStat \<Rightarrow> workers s = [] \<and> concurrency s = 0
      | AtAdd i \<Rightarrow> length (workers s) = i \<and> int i \<le> concurrency s
      | AtSend i \<Rightarrow> length (workers s) = i \<and> int i < concurrency s
      | AtGo i \<Rightarrow> length (workers s) = i \<and> int i < concurrency s
      | AtWait \<Rightarrow> int (length (workers s)) = concurrency s
      | Returned \<Rightarrow> int (length (workers s)) = concurrency s \<and> unsignalled s = 0)"

text \<open>
  The handle is the caller's, goroutine \<open>k\<close> was given the argument \<open>k\<close>, and the
  slice is the plan of the file's size.
\<close>

definition inv_plan :: "os_file \<Rightarrow> state \<Rightarrow> bool" where
  "inv_plan f s \<longleftrightarrow>
     handle s = f \<and>
     (\<forall>k < length (workers s). fst (workers s ! k) = int k) \<and>
     (\<forall>fs. Stat f = Inr fs \<longrightarrow> opc s \<noteq> AtStat \<longrightarrow>
           chunk_plan asyncChunkSize fs = Inr (chunkOffset s) \<and>
           concurrency s = num_chunks asyncChunkSize fs)"

text \<open>Only a goroutine whose read did not fail gets past line 118.\<close>

definition inv_reads :: "os_file \<Rightarrow> state \<Rightarrow> bool" where
  "inv_reads f s \<longleftrightarrow>
     (\<forall>k < length (workers s). past_read (snd (workers s ! k)) \<longrightarrow> read_ok f (chunkOffset s) (int k))"

definition inv :: "nat \<Rightarrow> os_file \<Rightarrow> state \<Rightarrow> bool" where
  "inv ncpu f s \<longleftrightarrow> inv_sync ncpu s \<and> inv_loop s \<and> inv_plan f s \<and> inv_reads f s"

section \<open>Concrete files and states\<close>

text \<open>A file of 2,500,000 bytes that reads without faults.\<close>

definition scenario_file :: os_file where
  "scenario_file = \<lparr>fsize = 2500000, cursor = 0, is_closed = False, stat_fails = False,
                    faulty = (\<lambda>off. False)\<rparr>"

text \<open>A file of one byte that reads without faults.\<close>

definition tiny_file :: os_file where
  "tiny_file = \<lparr>fsize = 1, cursor = 0, is_closed = False, stat_fails = False,
                faulty = (\<lambda>off. False)\<rparr>"

text \<open>
  A handle whose size query succeeds and whose positioned read at offset 0 fails with an
  error other than \<open>io.EOF\<close>, as for a directory opened with \<open>os.Open\<close>.
\<close>

definition faulty_file :: os_file where
  "faulty_file = \<lparr>fsize = 1, cursor = 0, is_closed = False, stat_fails = False,
                  faulty = (\<lambda>off. off = 0)\<rparr>"


text \<open>
  One processor, the file of 2,500,000 bytes: goroutine 0 is reading, the orchestrator
  has called \<open>wg.Add(1)\<close> for chunk 1 and stands before the send.
\<close>

definition full_state :: state where
  "full_state = \<lparr>gochannel = [1], wg = 2, logs = [], handle = scenario_file, concurrency = 3,
                  chunkOffset = [0, 1048576, 2097152], opc = AtSend 1,
                  workers = [(0, AtReadAt)], fatal = None\<rparr>"

text \<open>
  One processor, the same file: goroutine 0 has given its slot back and stands before
  \<open>wg.Done()\<close>, goroutine 1 has been spawned and stands before its read.
\<close>

definition overlap_state :: state where
  "overlap_state = \<lparr>gochannel = [1], wg = 2, logs = [], handle = scenario_file,
                     concurrency = 3, chunkOffset = [0, 1048576, 2097152], opc = AtAdd 2,
                     workers = [(0, AtDone), (1, AtReadAt)], fatal = None\<rparr>"

text \<open>The one-byte file, read to the end: the orchestrator has returned.\<close>

definition done_state :: state where
  "done_state = \<lparr>gochannel = [], wg = 0, logs = [], handle = tiny_file, concurrency = 1,
                  chunkOffset = [0], opc = Returned,
                  workers = [(0, Finished)], fatal = None\<rparr>"

text \<open>
  The faulty handle: goroutine 0 has logged its error and returned at line 117, the
  orchestrator stands before \<open>wg.Wait()\<close>.
\<close>

definition stuck_state :: state where
  "stuck_state = \<lparr>gochannel = [1], wg = 1, logs = [PathError ''read''], handle = faulty_file,
                   concurrency = 1, chunkOffset = [0], opc = AtWait,
                   workers = [(0, Aborted)], fatal = None\<rparr>"

section \<open>Properties of the chunk plan\<close>

lemma wrap_int_id: "- (2 ^ 63) \<le> x \<Longrightarrow> x < 2 ^ 63 \<Longrightarrow> wrap_int x = x"
  by (simp add: wrap_int_def)

lemma sdiv_nonneg: "0 \<le> a \<Longrightarrow> 0 < b \<Longrightarrow> a sdiv b = a div (b::int)"
  by (simp add: signed_divide_int_def sgn_if)

lemma smod_nonneg: "0 \<le> a \<Longrightarrow> 0 < b \<Longrightarrow> a smod b = a mod (b::int)"
  by (simp add: signed_modulo_int_def sgn_if)

lemma num_chunks_eq:
  assumes "0 \<le> fs" "fs < 2 ^ 63" "0 < cs"
  shows "num_chunks cs fs = (if fs mod cs = 0 then fs div cs else fs div cs + 1)"
proof -
  have "0 \<le> fs div cs" using assms by (simp add: pos_imp_zdiv_nonneg_iff)
  show ?thesis
  proof (cases "fs mod cs = 0")
    case True
    then show ?thesis using assms by (simp add: num_chunks_def sdiv_nonneg smod_nonneg)
  next
    case False
    have "fs div cs + 1 < 2 ^ 63"
    proof (cases "cs = 1")
      case True with False show ?thesis by simp
    next
      case F: False
      then have "2 \<le> cs" using assms by simp
      have "fs div cs * 2 \<le> fs div cs * cs" using \<open>2 \<le> cs\<close> \<open>0 \<le> fs div cs\<close> by (simp add: mult_left_mono)
      also have "\<dots> \<le> fs" using assms by (metis div_mult_mod_eq add_increasing2 order_refl pos_mod_sign)
      finally show ?thesis using assms by simp
    qed
    then show ?thesis using assms False \<open>0 \<le> fs div cs\<close>
      by (simp add: num_chunks_def sdiv_nonneg smod_nonneg wrap_int_id)
  qed
qed


lemma fill_offsets_spec:
  "0 \<le> i \<Longrightarrow> n \<le> int (length xs) \<Longrightarrow>
   \<exists>ys. fill_offsets cs n i xs = Inr ys \<and> length ys = length xs \<and>
     (\<forall>j < length xs. ys ! j = (if i \<le> int j \<and> int j < n then wrap_int (cs * int j) else xs ! j))"
proof (induction cs n i xs rule: fill_offsets.induct)
  case (1 cs n i xs)
  show ?case
  proof (cases "i < n")
    case False
    then show ?thesis by (subst fill_offsets.simps) simp
  next
    case True
    then have idx: "0 \<le> i \<and> i < int (length xs)" using "1.prems" by simp
    from "1.IH"[OF True idx] "1.prems"
    obtain ys where ys: "fill_offsets cs n (i + 1) (xs[nat i := wrap_int (cs * i)]) = Inr ys"
      "length ys = length xs"
      "\<forall>j < length xs. ys ! j = (if i + 1 \<le> int j \<and> int j < n then wrap_int (cs * int j) else (xs[nat i := wrap_int (cs * i)]) ! j)"
      by auto
    have "fill_offsets cs n i xs = Inr ys"
      using True idx ys(1) by (subst fill_offsets.simps) simp
    moreover have "\<forall>j < length xs. ys ! j = (if i \<le> int j \<and> int j < n then wrap_int (cs * int j) else xs ! j)"
    proof (intro allI impI)
      fix j assume j: "j < length xs"
      show "ys ! j = (if i \<le> int j \<and> int j < n then wrap_int (cs * int j) else xs ! j)"
      proof (cases "int j = i")
        case True
        then have "nat i = j" by simp
        then show ?thesis using ys(3) j True \<open>i < n\<close> by auto
      next
        case False
        then have "nat i \<noteq> j" using idx by auto
        then show ?thesis using ys(3) j False by auto
      qed
    qed
    ultimately show ?thesis using ys(2) by blast
  qed
qed

lemma plan_offset_below:
  assumes "0 \<le> fs" "fs < 2 ^ 63" "0 < cs" "0 \<le> j" "j < num_chunks cs fs"
  shows "0 \<le> cs * j \<and> cs * j < fs"
proof -
  have n: "num_chunks cs fs = (if fs mod cs = 0 then fs div cs else fs div cs + 1)"
    using assms by (simp add: num_chunks_eq)
  have dm: "cs * (fs div cs) + fs mod cs = fs" by simp
  have m: "0 \<le> fs mod cs" using assms by simp
  show ?thesis
  proof (cases "fs mod cs = 0")
    case True
    then have "j + 1 \<le> fs div cs" using n assms by simp
    then have "cs * (j + 1) \<le> cs * (fs div cs)" using assms by (simp add: mult_left_mono)
    then have "cs * j + cs \<le> fs" using dm True by (simp add: algebra_simps)
    then show ?thesis using assms by simp
  next
    case False
    then have "j \<le> fs div cs" using n assms by simp
    then have "cs * j \<le> cs * (fs div cs)" using assms by (simp add: mult_left_mono)
    moreover have "0 < fs mod cs" using False m by simp
    ultimately have "cs * j < fs" using dm by linarith
    then show ?thesis using assms by simp
  qed
qed

lemma chunk_plan_spec:
  assumes "0 \<le> fs" "fs < 2 ^ 63" "0 < cs"
  shows "\<exists>plan. chunk_plan cs fs = Inr plan \<and> int (length plan) = num_chunks cs fs \<and>
           (\<forall>i < length plan. plan ! i = int i * cs \<and> plan ! i < fs)"
proof -
  let ?n = "num_chunks cs fs"
  have n0: "0 \<le> ?n" using assms by (simp add: num_chunks_eq pos_imp_zdiv_nonneg_iff)
  let ?xs = "replicate (nat ?n) (0::int)"
  have "?n \<le> int (length ?xs)" using n0 by simp
  from fill_offsets_spec[OF order_refl this, of cs]
  obtain ys where ys: "fill_offsets cs ?n 0 ?xs = Inr ys" "length ys = length ?xs"
    "\<forall>j < length ?xs. ys ! j = (if 0 \<le> int j \<and> int j < ?n then wrap_int (cs * int j) else ?xs ! j)"
    by blast
  have cp: "chunk_plan cs fs = Inr ys"
    using n0 ys(1) by (simp add: chunk_plan_def make_int64_def Let_def)
  have len: "int (length ys) = ?n" using ys(2) n0 by simp
  have "\<forall>i < length ys. ys ! i = int i * cs \<and> ys ! i < fs"
  proof (intro allI impI)
    fix i assume i: "i < length ys"
    then have lt: "int i < ?n" using len by simp
    from plan_offset_below[OF assms _ lt] have b: "0 \<le> cs * int i \<and> cs * int i < fs" by simp
    have "- (2 ^ 63) \<le> cs * int i" "cs * int i < 2 ^ 63" using b assms(2) by linarith+
    then have "wrap_int (cs * int i) = cs * int i" by (rule wrap_int_id)
    moreover have "ys ! i = wrap_int (cs * int i)" using ys(3) i ys(2) lt by simp
    ultimately show "ys ! i = int i * cs \<and> ys ! i < fs" using b by (simp add: mult.commute)
  qed
  then show ?thesis using cp len by blast
qed




section \<open>The chunk worker, run alone\<close>

text \<open>
  On any read error other than \<open>io.EOF\<close> the worker logs the error and returns; the
  channel and the counter are as it found them.
\<close>

lemma readChunk_error_returns_early:
  assumes "read_result file offsets i = Inr (n, Some e)" and "e \<noteq> EOF"
  shows "readChunk file offsets i s = Returns (Println e s)"
    and "gochannel (Println e s) = gochannel s" and "wg (Println e s) = wg s"
  using assms by (simp_all add: readChunk_def Println_def)

text \<open>
  Claim C1. The claim: on completion of its read, whether it succeeds, ends at
  end-of-file or fails with another error, the worker takes one element out of the
  channel and calls \<open>wg.Done()\<close> once. The source on the failure path: for the handle
  whose read at offset 0 fails, with one element in the channel and the counter at 1,
  \<open>readChunk\<close> logs the error and returns with the element still in the channel and
  the counter still at 1.
\<close>

theorem readChunk_failure_keeps_slot:
  "readChunk faulty_file [0] 0 \<lparr>gochannel = [1], wg = 1, logs = []\<rparr>
     = Returns \<lparr>gochannel = [1], wg = 1, logs = [PathError ''read'']\<rparr>"
  by (simp add: readChunk_def read_result_def read_args_def ReadAt_def faulty_file_def Println_def)

text \<open>
  Claim C5. A worker whose positioned read returns \<open>io.EOF\<close> (the end of the file came
  before the buffer was full) ends exactly as a worker whose read filled its buffer,
  and writes no log line.
\<close>

theorem readChunk_eof_is_success:
  assumes "read_result file offsets i = Inr (n, Some EOF)"
    and "read_result file' offsets' i' = Inr (n', None)"
  shows "readChunk file offsets i s = readChunk file' offsets' i' s \<and>
         (case readChunk file offsets i s of Returns s' \<Rightarrow> logs s' = logs s | Blocks \<Rightarrow> True | Panics p \<Rightarrow> True)"
  using assms
  by (auto simp: readChunk_def recv_def wg_Add_def split: list.splits)

theorem readChunk_eof_is_success_witness:
  "read_result scenario_file [0, 1048576, 2097152] 2 = Inr (402848, Some EOF) \<and>
   read_result scenario_file [0, 1048576, 2097152] 0 = Inr (1048576, None) \<and>
   readChunk scenario_file [0, 1048576, 2097152] 2 \<lparr>gochannel = [1], wg = 1, logs = []\<rparr>
     = readChunk scenario_file [0, 1048576, 2097152] 0 \<lparr>gochannel = [1], wg = 1, logs = []\<rparr> \<and>
   readChunk scenario_file [0, 1048576, 2097152] 2 \<lparr>gochannel = [1], wg = 1, logs = []\<rparr>
     = Returns \<lparr>gochannel = [], wg = 0, logs = []\<rparr>"
proof -
  have a: "read_result scenario_file [0, 1048576, 2097152] 2 = Inr (402848, Some EOF)"
    by (simp add: read_result_def read_args_def ReadAt_def scenario_file_def asyncChunkSize_def)
  have b: "read_result scenario_file [0, 1048576, 2097152] 0 = Inr (1048576, None)"
    by (simp add: read_result_def read_args_def ReadAt_def scenario_file_def asyncChunkSize_def)
  have c: "readChunk scenario_file [0, 1048576, 2097152] 2 \<lparr>gochannel = [1], wg = 1, logs = []\<rparr>
     = Returns \<lparr>gochannel = [], wg = 0, logs = []\<rparr>"
    by (simp add: readChunk_def a recv_def wg_Add_def)
  show ?thesis
    using readChunk_eof_is_success[OF a b, of "\<lparr>gochannel = [1], wg = 1, logs = []\<rparr>"] a b c
    by simp
qed

text \<open>
  Claim C10. A worker whose read returns no error or \<open>io.EOF\<close>, started with its element
  in the channel and its \<open>wg.Add(1)\<close> counted, returns; it has taken exactly one element
  out of the channel, has decremented the counter by exactly one, and has logged nothing.
\<close>

theorem readChunk_success_exactly_once:
  assumes "read_result file offsets i = Inr (n, err)" and "err = None \<or> err = Some EOF"
    and "gochannel s \<noteq> []" and "0 < wg s"
  shows "\<exists>s'. readChunk file offsets i s = Returns s' \<and>
           gochannel s' = tl (gochannel s) \<and>
           length (gochannel s') + 1 = length (gochannel s) \<and>
           wg s' = wg s - 1 \<and> logs s' = logs s"
  using assms
  by (auto simp: readChunk_def recv_def wg_Add_def split: list.splits)

theorem readChunk_success_exactly_once_witness:
  "read_result scenario_file [0, 1048576, 2097152] 1 = Inr (1048576, None) \<and>
   gochannel \<lparr>gochannel = [1, 1], wg = 3, logs = []\<rparr> \<noteq> [] \<and>
   0 < wg \<lparr>gochannel = [1, 1], wg = 3, logs = []\<rparr> \<and>
   (\<exists>s'. readChunk scenario_file [0, 1048576, 2097152] 1 \<lparr>gochannel = [1, 1], wg = 3, logs = []\<rparr>
             = Returns s' \<and>
          gochannel s' = [1] \<and> wg s' = 2 \<and> logs s' = [])"
proof -
  have a: "read_result scenario_file [0, 1048576, 2097152] 1 = Inr (1048576, None)"
    by (simp add: read_result_def read_args_def ReadAt_def scenario_file_def asyncChunkSize_def)
  show ?thesis
    using readChunk_success_exactly_once[OF a, of "\<lparr>gochannel = [1, 1], wg = 3, logs = []\<rparr>"] a
    by auto
qed




section \<open>Counting goroutines\<close>

lemma count_pc_Nil [simp]: "count_pc P [] = 0"
  by (simp add: count_pc_def)

lemma count_pc_snoc [simp]:
  "count_pc P (ws @ [w]) = count_pc P ws + (if P (snd w) then 1 else 0)"
  by (simp add: count_pc_def)

lemma count_pc_update:
  "k < length ws \<Longrightarrow>
   count_pc P (ws[k := w]) + (if P (snd (ws ! k)) then 1 else 0)
     = count_pc P ws + (if P (snd w) then 1 else 0)"
proof (induction ws arbitrary: k)
  case Nil
  then show ?case by simp
next
  case (Cons a ws)
  show ?case
  proof (cases k)
    case 0
    then show ?thesis by (simp add: count_pc_def)
  next
    case (Suc j)
    with Cons.prems have "j < length ws" by simp
    from Cons.IH[OF this] Suc show ?thesis by (simp add: count_pc_def)
  qed
qed

lemma count_pc_zero: "count_pc P ws = 0 \<longleftrightarrow> (\<forall>w \<in> set ws. \<not> P (snd w))"
  by (simp add: count_pc_def filter_empty_conv)

lemma count_pc_pos: "k < length ws \<Longrightarrow> P (snd (ws ! k)) \<Longrightarrow> 0 < count_pc P ws"
  by (auto simp: count_pc_def filter_empty_conv)

lemma count_pc_update_int:
  assumes "k < length ws" and "ws ! k = (i, p)"
  shows "int (count_pc P (ws[k := (i, q)])) + of_bool (P p) = int (count_pc P ws) + of_bool (P q)"
  using count_pc_update[OF assms(1), of P "(i, q)"] by (cases "P p"; cases "P q"; simp add: assms(2))

lemma count_pc_mono: "(\<And>p. P p \<Longrightarrow> Q p) \<Longrightarrow> count_pc P ws \<le> count_pc Q ws"
  by (induction ws) (auto simp: count_pc_def)

section \<open>The invariant holds in every state of a parallel read\<close>

lemma run_invariant:
  assumes "run ncpu sched s0 = Some s" and "Q s0"
    and "\<And>a t t'. Q t \<Longrightarrow> step ncpu a t = Some t' \<Longrightarrow> Q t'"
  shows "Q s"
  using assms(1,2)
proof (induction sched arbitrary: s0)
  case Nil
  then show ?case by simp
next
  case (Cons a sched)
  from Cons.prems(1) obtain t where t: "step ncpu a s0 = Some t" "run ncpu sched t = Some s"
    by (auto split: option.splits)
  from assms(3)[OF Cons.prems(2) t(1)] have "Q t" .
  from Cons.IH[OF t(2) this] show ?case .
qed

lemmas inv_defs = inv_def inv_sync_def inv_loop_def inv_plan_def inv_reads_def

lemma inv_init: "inv ncpu f (init f)"
  by (simp add: inv_defs init_def holding_def has_slot_def unsignalled_def sent_def added_def)

lemma fill_offsets_length: "fill_offsets cs n i xs = Inr ys \<Longrightarrow> length ys = length xs"
proof (induction cs n i xs rule: fill_offsets.induct)
  case (1 cs n i xs)
  show ?case
  proof (cases "i < n")
    case False
    with "1.prems" show ?thesis by (subst (asm) fill_offsets.simps) simp
  next
    case True
    with "1.prems" have idx: "0 \<le> i \<and> i < int (length xs)"
      by (subst (asm) fill_offsets.simps) (simp split: if_splits)
    with "1.prems" True have "fill_offsets cs n (i + 1) (xs[nat i := wrap_int (cs * i)]) = Inr ys"
      by (subst (asm) fill_offsets.simps) simp
    from "1.IH"[OF True idx this] show ?thesis by simp
  qed
qed

lemma chunk_plan_length:
  "chunk_plan cs fs = Inr offs \<Longrightarrow> int (length offs) = num_chunks cs fs"
  by (auto simp: chunk_plan_def make_int64_def Let_def dest!: fill_offsets_length split: if_splits)

lemma chunk_plan_nonneg: "chunk_plan cs fs = Inr offs \<Longrightarrow> 0 \<le> num_chunks cs fs"
  using chunk_plan_length[of cs fs offs] by simp

lemma inv_orch_step:
  assumes "inv ncpu f s" and "orch_step ncpu s = Some s'"
  shows "inv ncpu f s'"
proof (cases "opc s")
  case AtStat
  with assms show ?thesis
    by (auto simp: inv_defs orch_step_def Println_def holding_def has_slot_def unsignalled_def sent_def added_def
        dest: chunk_plan_nonneg split: sum.splits)
next
  case (AtAdd i)
  with assms show ?thesis
    by (auto simp: inv_defs orch_step_def wg_Add_def holding_def has_slot_def unsignalled_def sent_def added_def
        split: sum.splits if_splits)
next
  case (AtSend i)
  with assms show ?thesis
    by (auto simp: inv_defs orch_step_def holding_def has_slot_def unsignalled_def sent_def added_def
        split: if_splits)
next
  case (AtGo i)
  with assms show ?thesis
    by (auto simp: inv_defs orch_step_def holding_def has_slot_def unsignalled_def sent_def added_def
        past_read_def nth_append split: if_splits)
next
  case AtWait
  with assms show ?thesis
    by (auto simp: inv_defs orch_step_def holding_def has_slot_def unsignalled_def sent_def added_def
        split: if_splits)
next
  case Returned
  with assms show ?thesis by (simp add: orch_step_def)
qed

text \<open>
  A goroutine that is alive moves from position \<open>p\<close> to \<open>q\<close>; the channel and the
  counter change as the two positions say.
\<close>

lemma inv_worker_move:
  assumes I: "inv ncpu f s"
    and k: "k < length (workers s)" and w: "workers s ! k = (i, p)" and alive: "p \<noteq> Finished"
    and ws: "workers s' = (workers s)[k := (i, q)]"
    and same: "opc s' = opc s" "handle s' = handle s" "concurrency s' = concurrency s"
      "chunkOffset s' = chunkOffset s"
    and ch: "int (length (gochannel s')) + of_bool (has_slot p)
               = int (length (gochannel s)) + of_bool (has_slot q)"
      "length (gochannel s') \<le> length (gochannel s)"
    and cnt: "wg s' + 1 = wg s + of_bool (q \<noteq> Finished)"
    and rd: "past_read q \<Longrightarrow> read_ok f (chunkOffset s) (int k)"
  shows "inv ncpu f s'"
proof -
  from I have I1: "inv_sync ncpu s" and I2: "inv_loop s" and I3: "inv_plan f s"
    and I4: "inv_reads f s" by (simp_all add: inv_def)
  have hold: "int (holding s') + of_bool (has_slot p) = int (holding s) + of_bool (has_slot q)"
    unfolding holding_def ws by (rule count_pc_update_int[OF k w])
  have uns: "int (unsignalled s') + 1 = int (unsignalled s) + of_bool (q \<noteq> Finished)"
    using count_pc_update_int[OF k w, of "\<lambda>p. p \<noteq> Finished" q] alive
    by (simp add: unsignalled_def ws)
  have pos: "0 < unsignalled s"
    using count_pc_pos[OF k, of "\<lambda>p. p \<noteq> Finished"] alive by (simp add: unsignalled_def w)
  have len: "length (workers s') = length (workers s)" by (simp add: ws)
  have nr: "opc s \<noteq> Returned" "opc s \<noteq> AtStat"
    using I2 pos k by (auto simp: inv_loop_def)
  have "int (length (gochannel s')) = int (holding s') + int (sent (opc s))"
    using I1 hold ch(1) by (simp add: inv_sync_def)
  then have "length (gochannel s') = holding s' + sent (opc s)" by linarith
  then have J1: "inv_sync ncpu s'"
    using I1 uns cnt ch(2) by (simp add: inv_sync_def same)
  have J2: "inv_loop s'"
    using I2 nr by (simp add: inv_loop_def same len split: opc.splits)
  have "fst (workers s' ! j) = int j" if "j < length (workers s')" for j
  proof -
    from that have j: "j < length (workers s)" by (simp add: len)
    then have "fst (workers s ! j) = int j" using I3 by (simp add: inv_plan_def)
    moreover have "i = int k" using I3 k w by (auto simp: inv_plan_def)
    ultimately show ?thesis using j by (cases "j = k") (simp_all add: ws)
  qed
  then have J3: "inv_plan f s'" using I3 by (simp add: inv_plan_def same)
  have "read_ok f (chunkOffset s') (int j)"
    if "j < length (workers s')" "past_read (snd (workers s' ! j))" for j
  proof (cases "j = k")
    case True
    then have "past_read q" using that k by (simp add: ws)
    from rd[OF this] True show ?thesis by (simp add: same)
  next
    case False
    then have "past_read (snd (workers s ! j))" using that(2) by (simp add: ws)
    then show ?thesis using I4 that(1) by (simp add: inv_reads_def same len)
  qed
  then have J4: "inv_reads f s'" by (simp add: inv_reads_def)
  show ?thesis using J1 J2 J3 J4 by (simp add: inv_def)
qed

lemma inv_fatal: "inv ncpu f s \<Longrightarrow> inv ncpu f (s\<lparr>fatal := x\<rparr>)"
  by (simp add: inv_defs holding_def unsignalled_def split: opc.splits)

lemma inv_worker_step:
  assumes I: "inv ncpu f s" and st: "worker_step k s = Some s'"
  shows "inv ncpu f s'"
proof -
  from st have k: "k < length (workers s)" by (auto simp: worker_step_def split: if_splits)
  obtain i p where w: "workers s ! k = (i, p)" by (cases "workers s ! k")
  have i: "i = int k" and hf: "handle s = f" using I k w by (auto simp: inv_def inv_plan_def)
  have ok: "read_ok f (chunkOffset s) (int k)" if "past_read p"
    using I k w that by (auto simp: inv_def inv_reads_def)
  show ?thesis
  proof (cases p)
    case AtReadAt
    show ?thesis
    proof (cases "read_result (handle s) (chunkOffset s) i")
      case (Inl pn)
      with st k w AtReadAt have "s' = s\<lparr>fatal := Some pn\<rparr>" by (simp add: worker_step_def)
      with I show ?thesis by (simp add: inv_fatal)
    next
      case (Inr r)
      obtain n err where r: "r = (n, err)" by (cases r)
      show ?thesis
      proof (cases "err \<noteq> None \<and> err \<noteq> Some EOF")
        case True
        with st k w AtReadAt Inr r
        have s': "s' = (Println (the err) s)\<lparr>workers := (workers s)[k := (i, Aborted)]\<rparr>"
          by (simp add: worker_step_def)
        show ?thesis
          by (rule inv_worker_move[OF I k w, where q = Aborted])
            (simp_all add: s' Println_def AtReadAt has_slot_def past_read_def)
      next
        case False
        with st k w AtReadAt Inr r
        have s': "s' = s\<lparr>workers := (workers s)[k := (i, AtRecv)]\<rparr>"
          by (auto simp: worker_step_def)
        have "read_ok f (chunkOffset s) (int k)"
          using Inr r False i hf by (auto simp: read_ok_def)
        then show ?thesis
          by (intro inv_worker_move[OF I k w, where q = AtRecv])
            (simp_all add: s' AtReadAt has_slot_def)
      qed
    qed
  next
    case AtRecv
    with st k w obtain x xs where g: "gochannel s = x # xs"
      and s': "s' = s\<lparr>gochannel := xs, workers := (workers s)[k := (i, AtDone)]\<rparr>"
      by (auto simp: worker_step_def recv_def split: list.splits)
    have "read_ok f (chunkOffset s) (int k)" using ok AtRecv by (simp add: past_read_def)
    then show ?thesis
      by (intro inv_worker_move[OF I k w, where q = AtDone])
        (simp_all add: s' AtRecv g has_slot_def)
  next
    case AtDone
    show ?thesis
    proof (cases "wg s + (- 1) < 0")
      case True
      with st k w AtDone have "s' = s\<lparr>fatal := Some NegativeWaitGroupCounter\<rparr>"
        by (simp add: worker_step_def wg_Add_def)
      with I show ?thesis by (simp add: inv_fatal)
    next
      case False
      with st k w AtDone
      have s': "s' = s\<lparr>wg := wg s + (- 1), workers := (workers s)[k := (i, Finished)]\<rparr>"
        by (simp add: worker_step_def wg_Add_def)
      have "read_ok f (chunkOffset s) (int k)" using ok AtDone by (simp add: past_read_def)
      then show ?thesis
        by (intro inv_worker_move[OF I k w, where q = Finished])
          (simp_all add: s' AtDone has_slot_def)
    qed
  next
    case Aborted
    with st k w show ?thesis by (simp add: worker_step_def)
  next
    case Finished
    with st k w show ?thesis by (simp add: worker_step_def)
  qed
qed

lemma inv_step:
  assumes "inv ncpu f s" and "step ncpu a s = Some s'"
  shows "inv ncpu f s'"
proof (cases a)
  case Orchestrator
  with assms(2) have "orch_step ncpu s = Some s'" by (simp add: step_def split: if_splits)
  with assms(1) show ?thesis by (rule inv_orch_step)
next
  case (Worker k)
  with assms(2) have "worker_step k s = Some s'" by (simp add: step_def split: if_splits)
  with assms(1) show ?thesis by (rule inv_worker_step)
qed

lemma inv_run:
  assumes "run ncpu sched (init f) = Some s"
  shows "inv ncpu f s"
  using assms inv_init inv_step by (rule run_invariant)

text \<open>
  In a parallel read a goroutine never waits at the receive of line 120 and
  \<open>wg.Done()\<close> never panics: its element is in the channel and its \<open>wg.Add(1)\<close> is
  counted.
\<close>

lemma worker_finds_slot_and_count:
  assumes "run ncpu sched (init f) = Some s" and "k < length (workers s)"
  shows "snd (workers s ! k) = AtRecv \<Longrightarrow> gochannel s \<noteq> []"
    and "snd (workers s ! k) = AtDone \<Longrightarrow> 0 < wg s"
proof -
  from inv_run[OF assms(1)] have I: "inv_sync ncpu s" by (simp add: inv_def)
  {
    assume a: "snd (workers s ! k) = AtRecv"
    have "0 < holding s"
      unfolding holding_def by (rule count_pc_pos[OF assms(2)]) (simp add: has_slot_def a)
    with I show "gochannel s \<noteq> []" by (auto simp: inv_sync_def)
  }
  {
    assume a: "snd (workers s ! k) = AtDone"
    have "0 < unsignalled s"
      unfolding unsignalled_def by (rule count_pc_pos[OF assms(2)]) (simp add: a)
    moreover have "0 \<le> added (opc s)" by (simp add: added_def split: opc.splits)
    ultimately show "0 < wg s" using I by (simp add: inv_sync_def)
  }
qed

section \<open>Evaluating schedules\<close>

lemmas eval_defs = step_def orch_step_def worker_step_def init_def Stat_def
  chunk_plan_def num_chunks_def make_int64_def asyncChunkSize_def
  signed_divide_int_def signed_modulo_int_def wrap_int_def fill_offsets.simps
  wg_Add_def recv_def read_result_def read_args_def ReadAt_def Println_def
  numeral_3_eq_3

lemma run_full_state:
  "run 1 [Orchestrator, Orchestrator, Orchestrator, Orchestrator, Orchestrator]
     (init scenario_file) = Some full_state"
  by (simp add: eval_defs scenario_file_def full_state_def)

lemma run_overlap_state:
  "run 1 [Orchestrator, Orchestrator, Orchestrator, Orchestrator, Worker 0, Worker 0,
          Orchestrator, Orchestrator, Orchestrator]
     (init scenario_file) = Some overlap_state"
  by (simp add: eval_defs scenario_file_def overlap_state_def)

lemma run_done_state:
  "run 4 [Orchestrator, Orchestrator, Orchestrator, Orchestrator, Worker 0, Orchestrator,
          Worker 0, Worker 0, Orchestrator]
     (init tiny_file) = Some done_state"
  by (simp add: eval_defs tiny_file_def done_state_def)

lemma run_stuck_state:
  "run 4 [Orchestrator, Orchestrator, Orchestrator, Orchestrator, Orchestrator, Worker 0]
     (init faulty_file) = Some stuck_state"
  by (simp add: eval_defs faulty_file_def stuck_state_def)

text \<open>In the stuck state nobody can move, whatever the number of processors.\<close>

lemma stuck_state_deadlock: "step ncpu a stuck_state = None"
  by (cases a) (auto simp: step_def orch_step_def worker_step_def stuck_state_def)

section \<open>The parallel read\<close>

text \<open>
  Claim C3, as stated: at every instant the number of admitted chunk workers is at
  most the number of processors. It fails: on one processor, goroutine 0 has given its
  slot back but has not yet called \<open>wg.Done()\<close> when goroutine 1 is spawned, and two
  goroutines are running \<open>readChunk\<close>.
\<close>

theorem running_exceeds_ncpu:
  "run 1 [Orchestrator, Orchestrator, Orchestrator, Orchestrator, Worker 0, Worker 0,
          Orchestrator, Orchestrator, Orchestrator]
     (init scenario_file) = Some overlap_state \<and>
   running overlap_state = 2 \<and> \<not> running overlap_state \<le> 1"
  using run_overlap_state by (simp add: overlap_state_def running_def count_pc_def)

lemma admitted_le_holding: "admitted s \<le> holding s"
  unfolding admitted_def holding_def by (rule count_pc_mono) (auto simp: has_slot_def)

text \<open>
  Claim C3, amended. At every instant of a parallel read the number of goroutines that
  are running and have not yet given their slot back is at most the number of elements
  in the channel, which is at most \<open>ncpu\<close>; and while the channel is full the
  orchestrator cannot move past the send, so no further goroutine is spawned.
\<close>

theorem concurrency_bounded:
  assumes "run ncpu sched (init f) = Some s"
  shows "admitted s \<le> ncpu \<and> admitted s \<le> length (gochannel s) \<and>
         length (gochannel s) \<le> ncpu \<and>
         (\<forall>i. opc s = AtSend i \<and> \<not> length (gochannel s) < ncpu \<longrightarrow>
              step ncpu Orchestrator s = None)"
proof -
  from inv_run[OF assms] have "inv_sync ncpu s" by (simp add: inv_def)
  then have "holding s \<le> length (gochannel s)" "length (gochannel s) \<le> ncpu"
    by (simp_all add: inv_sync_def)
  moreover note admitted_le_holding[of s]
  moreover have "\<forall>i. opc s = AtSend i \<and> \<not> length (gochannel s) < ncpu \<longrightarrow>
              step ncpu Orchestrator s = None"
    by (auto simp: step_def orch_step_def)
  ultimately show ?thesis by simp
qed

theorem concurrency_bounded_witness:
  "run 1 [Orchestrator, Orchestrator, Orchestrator, Orchestrator, Orchestrator]
     (init scenario_file) = Some full_state \<and>
   admitted full_state = 1 \<and> length (gochannel full_state) = 1 \<and>
   opc full_state = AtSend 1 \<and> step 1 Orchestrator full_state = None"
  using concurrency_bounded[OF run_full_state] run_full_state
  by (simp add: full_state_def admitted_def count_pc_def)

text \<open>
  When the orchestrator has returned from a read whose size query succeeded, every
  planned goroutine has been spawned and has returned at the end of \<open>readChunk\<close>, and
  the counter is zero.
\<close>

lemma returned_all_finished:
  assumes "Stat f = Inr fileSize" and "run ncpu sched (init f) = Some s" and "opc s = Returned"
  shows "int (length (workers s)) = num_chunks asyncChunkSize fileSize \<and>
         (\<forall>w \<in> set (workers s). snd w = Finished) \<and> wg s = 0"
proof -
  from inv_run[OF assms(2)] have I: "inv_sync ncpu s" "inv_loop s" "inv_plan f s"
    by (simp_all add: inv_def)
  from I(2) assms(3) have l: "int (length (workers s)) = concurrency s" and u: "unsignalled s = 0"
    by (simp_all add: inv_loop_def)
  from I(3) assms(1,3) have "concurrency s = num_chunks asyncChunkSize fileSize"
    by (simp add: inv_plan_def)
  moreover from u have "\<forall>w \<in> set (workers s). snd w = Finished"
    by (simp add: unsignalled_def count_pc_zero)
  moreover from I(1) u assms(3) have "wg s = 0" by (simp add: inv_sync_def added_def)
  ultimately show ?thesis using l by simp
qed

text \<open>
  Claim C2. The claim: the orchestrator returns only after every dispatched worker has
  finished, and it does return even when some chunk reads fail. The source: when the
  size query succeeds and the read of some planned chunk fails with an error other than
  \<open>io.EOF\<close>, no schedule brings the orchestrator to its return.
\<close>

theorem read_failure_never_returns:
  assumes "Stat f = Inr fileSize" and "0 \<le> fileSize" and "fileSize < 2 ^ 63"
    and "k < nat (num_chunks asyncChunkSize fileSize)"
    and "faulty f (int k * asyncChunkSize)"
    and "run ncpu sched (init f) = Some s"
  shows "opc s \<noteq> Returned"
proof
  assume r: "opc s = Returned"
  from returned_all_finished[OF assms(1,6) r]
  have len: "int (length (workers s)) = num_chunks asyncChunkSize fileSize"
    and fin: "\<forall>w \<in> set (workers s). snd w = Finished" by simp_all
  from len assms(4) have k: "k < length (workers s)" by simp
  with fin have "snd (workers s ! k) = Finished" by simp
  moreover from inv_run[OF assms(6)] have "inv_reads f s" "inv_plan f s" by (simp_all add: inv_def)
  ultimately have ok: "read_ok f (chunkOffset s) (int k)"
    and plan: "chunk_plan asyncChunkSize fileSize = Inr (chunkOffset s)"
    using k r assms(1) by (simp_all add: inv_reads_def inv_plan_def past_read_def)
  have cs: "0 < asyncChunkSize" by (simp add: asyncChunkSize_def)
  from chunk_plan_spec[OF assms(2,3) cs] plan
  have l2: "int (length (chunkOffset s)) = num_chunks asyncChunkSize fileSize"
    and offs: "\<forall>i < length (chunkOffset s). chunkOffset s ! i = int i * asyncChunkSize" by auto
  from l2 assms(4) have k2: "k < length (chunkOffset s)" by simp
  with offs have off: "chunkOffset s ! k = int k * asyncChunkSize" by simp
  from assms(1) have opn: "\<not> is_closed f" by (auto simp: Stat_def split: if_splits)
  have "0 \<le> int k * asyncChunkSize" using cs by simp
  then have "ReadAt f asyncChunkSize (int k * asyncChunkSize) = (0, Some (PathError ''read''))"
    using assms(5) opn by (simp add: ReadAt_def)
  then have "read_result f (chunkOffset s) (int k) = Inr (0, Some (PathError ''read''))"
    using k2 off by (simp add: read_result_def read_args_def)
  with ok show False by (simp add: read_ok_def)
qed

theorem read_failure_never_returns_witness:
  "Stat faulty_file = Inr 1 \<and> (0::nat) < nat (num_chunks asyncChunkSize 1) \<and>
   faulty faulty_file (int 0 * asyncChunkSize) \<and>
   run 4 [Orchestrator, Orchestrator, Orchestrator, Orchestrator, Orchestrator, Worker 0]
     (init faulty_file) = Some stuck_state \<and>
   opc stuck_state = AtWait \<and> wg stuck_state = 1 \<and> workers stuck_state = [(0, Aborted)] \<and>
   opc stuck_state \<noteq> Returned"
proof -
  have a: "Stat faulty_file = Inr 1" by (simp add: Stat_def faulty_file_def)
  have b: "(0::nat) < nat (num_chunks asyncChunkSize 1)"
    by (simp add: num_chunks_def asyncChunkSize_def signed_divide_int_def signed_modulo_int_def
        wrap_int_def)
  have c: "faulty faulty_file (int 0 * asyncChunkSize)" by (simp add: faulty_file_def)
  have "opc stuck_state \<noteq> Returned"
    using read_failure_never_returns[OF a _ _ b c run_stuck_state] by simp
  then show ?thesis using a b c run_stuck_state by (simp add: stuck_state_def)
qed



text \<open>
  Claim C9. In every state of a parallel read the file handle is the one the caller
  passed in: neither closed nor moved. The orchestrator applies \<open>Stat\<close> to it and the
  goroutines \<open>ReadAt\<close>, and nothing else.
\<close>

theorem handle_untouched:
  assumes "run ncpu sched (init f) = Some s"
  shows "handle s = f \<and> is_closed (handle s) = is_closed f \<and> cursor (handle s) = cursor f"
proof -
  from inv_run[OF assms] have "inv_plan f s" by (simp add: inv_def)
  then show ?thesis by (simp add: inv_plan_def)
qed

theorem handle_untouched_witness:
  "run 4 [Orchestrator, Orchestrator, Orchestrator, Orchestrator, Worker 0, Orchestrator,
          Worker 0, Worker 0, Orchestrator]
     (init tiny_file) = Some done_state \<and>
   opc done_state = Returned \<and> handle done_state = tiny_file \<and>
   \<not> is_closed (handle done_state) \<and> cursor (handle done_state) = 0"
  using handle_untouched[OF run_done_state] run_done_state
  by (simp add: done_state_def tiny_file_def)

end
